theory Spec2Isabelle
  imports Main
begin

section \<open>The client side of the request/result RPC (request_result_rpc_client.h)\<close>

text \<open>
  The header declares two class templates. \<open>RpcHolder\<close> keeps the gRPC objects of one call
  and closes the call. \<open>RequestResultRpcClient\<close> drives the exchange: open the call, write
  the request, read the decision, run or cancel the callback, and later write the result.
  Every member function is embedded as a function on an explicit state; what a member
  function does to the outside (the mutex, the subclass hooks, the channel, the callback,
  the message handler) is appended to a trace, in program order.
\<close>

subsection \<open>Declarations the header uses\<close>

text \<open>
  The codes of \<open>::grpc::StatusCode\<close>, the enumeration of the gRPC library that
  \<open>FinishSucceeded\<close> compares against.
\<close>

datatype StatusCode =
    OK | CANCELLED | UNKNOWN | INVALID_ARGUMENT | DEADLINE_EXCEEDED | NOT_FOUND
  | ALREADY_EXISTS | PERMISSION_DENIED | UNAUTHENTICATED | RESOURCE_EXHAUSTED
  | FAILED_PRECONDITION | ABORTED | OUT_OF_RANGE | UNIMPLEMENTED | INTERNAL
  | UNAVAILABLE | DATA_LOSS

text \<open>
  Modelled from the spec: the severities of \<open>MessageHandler::Message\<close>
  (pagespeed/kernel/base/message_handler.h is not among the sources). The spec names the
  warning severity and the fatal one; \<open>PS_LOG_WARN(handler, text)\<close> is a message of
  severity \<open>kWarning\<close>.
\<close>

datatype MessageType = kInfo | kWarning | kError | kFatal

text \<open>
  The member functions that are passed as completion handlers. \<open>MakeFunction(this, &run,
  &cancel)\<close> builds a \<open>Function\<close> out of two of them.

  Modelled from the spec: pagespeed/kernel/base/function.h and pagespeed/kernel/util/grpc.h
  are not among the sources. By the spec's transport contract an operation takes a
  completion pair and the dispatch queue later invokes the first member on success and the
  second on failure.
\<close>

datatype memfn =
    Client_BootStrapFinished
  | Client_StartUpFailed
  | Client_WriteServerRequestComplete
  | Client_NotifyClientOfServerDecision
  | Holder_Finish
  | Holder_Error
  | Holder_FinishSucceeded
  | Holder_FinishFailed

datatype Function = MakeFunction memfn memfn

text \<open>The response message: the class reads one field of it, \<open>ok_to_proceed\<close>.\<close>

record ResponseT =
  ok_to_proceed :: bool

definition Clear :: ResponseT where
  "Clear = \<lparr>ok_to_proceed = False\<rparr>"

datatype ReaderWriter = Channel

text \<open>The asynchronous operations of the channel; each is outstanding until the
  completion queue delivers its tag.\<close>

datatype 'req operation = OpStartCall | OpWrite 'req | OpRead | OpFinish

text \<open>What a member function does to the outside, in program order.\<close>

datatype ('req, 'cb) action =
    Lock
  | Unlock
  | Hook_StartRpc
  | Hook_PopulateServerRequest
  | RwWrite 'req
  | RwRead
  | RwFinish
  | CallRun 'cb
  | CallCancel 'cb
  | LogMessage MessageType string
  | DeleteHolder

text \<open>A \<open>CHECK\<close> or \<open>DCHECK\<close> that fails aborts the process; so does a call through a
  null pointer.\<close>

datatype fault = CheckFailed | NullDereference

subsection \<open>The state\<close>

text \<open>\<open>RpcHolder\<close>: \<open>rw_\<close> is the \<open>unique_ptr\<close> to the channel, empty until
  \<open>SetReaderWriter\<close>; \<open>status_\<close> receives the final status. The messages given to
  \<open>handler_\<close> go to the trace, and \<open>context_\<close> is only handed to the hook.\<close>

record RpcHolder =
  rw :: "ReaderWriter option"
  status :: StatusCode

text \<open>
  \<open>callback_\<close>, \<open>rpc_\<close> and \<open>resp_\<close> are the fields of \<open>RequestResultRpcClient\<close> that the
  mutex guards. \<open>detached\<close> is the \<open>RpcHolder\<close> after \<open>rpc_.release()\<close>: it owns itself
  until it deletes itself. \<open>queue\<close> holds the operations outstanding on the completion
  queue with their tags, and \<open>trace\<close> the actions performed so far. The field names
  are the source's without the final underscore, which an identifier cannot end in here.
\<close>

record ('req, 'cb) world =
  callback :: "'cb option"
  rpc :: "RpcHolder option"
  resp :: ResponseT
  detached :: "RpcHolder option"
  queue :: "('req operation \<times> Function) list"
  trace :: "('req, 'cb) action list"

definition emit :: "('req, 'cb) action list \<Rightarrow> ('req, 'cb) world \<Rightarrow> ('req, 'cb) world" where
  "emit as w = w\<lparr>trace := trace w @ as\<rparr>"

definition issue :: "'req operation \<Rightarrow> Function \<Rightarrow> ('req, 'cb) world \<Rightarrow> ('req, 'cb) world" where
  "issue opn tag w = w\<lparr>queue := queue w @ [(opn, tag)]\<rparr>"

definition and_then ::
  "fault + 'a \<Rightarrow> ('a \<Rightarrow> fault + 'b) \<Rightarrow> fault + 'b" where
  "and_then r f = (case r of Inl e \<Rightarrow> Inl e | Inr x \<Rightarrow> f x)"

subsection \<open>RpcHolder\<close>

text \<open>The member functions of \<open>RpcHolder\<close> below run on the holder that owns itself
  (\<open>detached\<close>); a call on a deleted holder or through an empty \<open>rw_\<close> is a fault.\<close>

definition Finish :: "('req, 'cb) world \<Rightarrow> fault + ('req, 'cb) world" where
  "Finish w =
     (case detached w of
        None \<Rightarrow> Inl NullDereference
      | Some h \<Rightarrow>
          (case rw h of
             None \<Rightarrow> Inl NullDereference
           | Some ch \<Rightarrow>
               Inr (emit [RwFinish]
                     (issue OpFinish (MakeFunction Holder_FinishSucceeded Holder_FinishFailed) w))))"

definition CallbackForAsyncCleanup :: Function where
  "CallbackForAsyncCleanup = MakeFunction Holder_Finish Holder_Error"

text \<open>\<open>ndebug\<close> says whether \<open>NDEBUG\<close> is defined (a release build).\<close>

definition severity :: "bool \<Rightarrow> StatusCode \<Rightarrow> MessageType" where
  "severity ndebug code = (if \<not> ndebug \<and> code = ABORTED then kFatal else kWarning)"

definition FinishSucceeded_log :: "bool \<Rightarrow> StatusCode \<Rightarrow> ('req, 'cb) action list" where
  "FinishSucceeded_log ndebug code =
     (if code \<noteq> OK \<and> code \<noteq> CANCELLED
      then [LogMessage (severity ndebug code) ''Received error status from CentralController: %d (%s)'']
      else [])"

definition FinishSucceeded :: "bool \<Rightarrow> ('req, 'cb) world \<Rightarrow> fault + ('req, 'cb) world" where
  "FinishSucceeded ndebug w =
     (case detached w of
        None \<Rightarrow> Inl NullDereference
      | Some h \<Rightarrow>
          Inr (emit (FinishSucceeded_log ndebug (status h) @ [DeleteHolder])
                 (w\<lparr>detached := None\<rparr>)))"

definition FinishFailed :: "('req, 'cb) world \<Rightarrow> fault + ('req, 'cb) world" where
  "FinishFailed w =
     (case detached w of
        None \<Rightarrow> Inl NullDereference
      | Some h \<Rightarrow>
          Inr (emit [LogMessage kWarning ''RpcHolder Finish failed'', DeleteHolder]
                 (w\<lparr>detached := None\<rparr>)))"

definition Error :: "('req, 'cb) world \<Rightarrow> fault + ('req, 'cb) world" where
  "Error w =
     (case detached w of
        None \<Rightarrow> Inl NullDereference
      | Some h \<Rightarrow>
          Finish (emit [LogMessage kWarning ''RpcHolder cleanup to CentralController failed''] w))"

subsection \<open>RequestResultRpcClient\<close>

text \<open>The constructor: \<open>CHECK(callback_ != nullptr)\<close> holds in every build.\<close>

definition RequestResultRpcClient :: "'cb option \<Rightarrow> fault + ('req, 'cb) world" where
  "RequestResultRpcClient cb =
     (if cb = None then Inl CheckFailed
      else Inr \<lparr>callback = cb,
                rpc = Some \<lparr>rw = None, status = OK\<rparr>,
                resp = Clear,
                detached = None,
                queue = [],
                trace = []\<rparr>)"

text \<open>
  \<open>Start\<close> takes the mutex, calls the hook \<open>StartRpc\<close> with the tag
  \<open>MakeFunction(this, &BootStrapFinished, &StartUpFailed)\<close> and stores the channel the hook
  returns; \<open>SetReaderWriter\<close> has \<open>DCHECK(rw_ == nullptr)\<close>.

  Modelled from the spec: the hook is pure virtual and no subclass is among the sources.
  By the spec's hook contract it selects the remote method and begins the duplex call,
  which registers the tag with the completion queue, and returns the channel.
\<close>

definition Start :: "bool \<Rightarrow> ('req, 'cb) world \<Rightarrow> fault + ('req, 'cb) world" where
  "Start ndebug w =
     (case rpc w of
        None \<Rightarrow> Inl NullDereference
      | Some h \<Rightarrow>
          if \<not> ndebug \<and> rw h \<noteq> None then Inl CheckFailed
          else Inr (emit [Lock, Hook_StartRpc, Unlock]
                      (issue OpStartCall
                         (MakeFunction Client_BootStrapFinished Client_StartUpFailed)
                         (w\<lparr>rpc := Some (h\<lparr>rw := Some Channel\<rparr>)\<rparr>))))"

definition SendResultToServer :: "'req \<Rightarrow> ('req, 'cb) world \<Rightarrow> fault + ('req, 'cb) world" where
  "SendResultToServer response w =
     (case rpc w of
        None \<Rightarrow> Inr (emit [Lock, Unlock] w)
      | Some h \<Rightarrow>
          (case rw h of
             None \<Rightarrow> Inl NullDereference
           | Some ch \<Rightarrow>
               Inr (emit [Lock, RwWrite response, Unlock]
                      (issue (OpWrite response) CallbackForAsyncCleanup
                         (w\<lparr>rpc := None, detached := Some h\<rparr>)))))"

text \<open>\<open>req\<close> is the request as the hook \<open>PopulateServerRequest\<close> fills it.\<close>

definition BootStrapFinished :: "'req \<Rightarrow> ('req, 'cb) world \<Rightarrow> fault + ('req, 'cb) world" where
  "BootStrapFinished req w =
     (case rpc w of
        None \<Rightarrow> Inl NullDereference
      | Some h \<Rightarrow>
          (case rw h of
             None \<Rightarrow> Inl NullDereference
           | Some ch \<Rightarrow>
               Inr (emit [Lock, Hook_PopulateServerRequest, RwWrite req, Unlock]
                      (issue (OpWrite req)
                         (MakeFunction Client_WriteServerRequestComplete Client_StartUpFailed)
                         w))))"

definition WriteServerRequestComplete :: "('req, 'cb) world \<Rightarrow> fault + ('req, 'cb) world" where
  "WriteServerRequestComplete w =
     (case rpc w of
        None \<Rightarrow> Inl NullDereference
      | Some h \<Rightarrow>
          (case rw h of
             None \<Rightarrow> Inl NullDereference
           | Some ch \<Rightarrow>
               Inr (emit [Lock, RwRead, Unlock]
                      (issue OpRead
                         (MakeFunction Client_NotifyClientOfServerDecision Client_StartUpFailed)
                         w))))"

text \<open>\<open>rpc_.reset()\<close> destroys the holder that \<open>rpc_\<close> owns, if there is one.\<close>

definition NotifyClientOfServerDecision ::
  "bool \<Rightarrow> ('req, 'cb) world \<Rightarrow> fault + ('req, 'cb) world" where
  "NotifyClientOfServerDecision ndebug w =
     (if \<not> ndebug \<and> rpc w = None then Inl CheckFailed
      else
        (case callback w of
           None \<Rightarrow> Inl NullDereference
         | Some cb \<Rightarrow>
             if ok_to_proceed (resp w)
             then Inr (emit [Lock, Unlock, CallRun cb]
                         (w\<lparr>resp := Clear, callback := None\<rparr>))
             else Inr (emit ([Lock] @ (if rpc w = None then [] else [DeleteHolder])
                               @ [Unlock, CallCancel cb])
                         (w\<lparr>resp := Clear, callback := None, rpc := None\<rparr>))))"

definition StartUpFailed :: "bool \<Rightarrow> ('req, 'cb) world \<Rightarrow> fault + ('req, 'cb) world" where
  "StartUpFailed ndebug w =
     (if \<not> ndebug \<and> rpc w = None then Inl CheckFailed
      else
        (case rpc w of
           None \<Rightarrow> Inr (emit [Lock, Unlock] w)
         | Some h \<Rightarrow>
             and_then
               (Finish (emit [Lock, LogMessage kWarning
                                ''Couldn't get response from CentralController'']
                          (w\<lparr>rpc := None, detached := Some h\<rparr>)))
               (\<lambda>w1. case callback w1 of
                        None \<Rightarrow> Inl NullDereference
                      | Some cb \<Rightarrow>
                          Inr (emit [Unlock, CallCancel cb] (w1\<lparr>callback := None\<rparr>)))))"

subsection \<open>The completion queue and the caller\<close>

text \<open>
  Modelled from the spec: the completion queue and its worker threads
  (pagespeed/kernel/util/grpc.h and the gRPC library) are not among the sources. By the
  spec's transport contract an operation that completes invokes its completion pair with
  success or failure; a read that succeeds has stored the message in the buffer it was
  given (\<open>&resp_\<close>), and a finish that succeeds has stored the final status (\<open>&status_\<close>).
\<close>

definition transfer ::
  "'req operation \<Rightarrow> bool \<Rightarrow> ResponseT \<Rightarrow> StatusCode \<Rightarrow> ('req, 'cb) world \<Rightarrow> ('req, 'cb) world" where
  "transfer opn ok r st w =
     (case opn of
        OpRead \<Rightarrow> if ok then w\<lparr>resp := r\<rparr> else w
      | OpFinish \<Rightarrow>
          (case detached w of
             Some h \<Rightarrow> if ok then w\<lparr>detached := Some (h\<lparr>status := st\<rparr>)\<rparr> else w
           | None \<Rightarrow> w)
      | _ \<Rightarrow> w)"

fun dispatch :: "bool \<Rightarrow> 'req \<Rightarrow> memfn \<Rightarrow> ('req, 'cb) world \<Rightarrow> fault + ('req, 'cb) world" where
  "dispatch ndebug req Client_BootStrapFinished w = BootStrapFinished req w"
| "dispatch ndebug req Client_StartUpFailed w = StartUpFailed ndebug w"
| "dispatch ndebug req Client_WriteServerRequestComplete w = WriteServerRequestComplete w"
| "dispatch ndebug req Client_NotifyClientOfServerDecision w = NotifyClientOfServerDecision ndebug w"
| "dispatch ndebug req Holder_Finish w = Finish w"
| "dispatch ndebug req Holder_Error w = Error w"
| "dispatch ndebug req Holder_FinishSucceeded w = FinishSucceeded ndebug w"
| "dispatch ndebug req Holder_FinishFailed w = FinishFailed w"

fun handler :: "Function \<Rightarrow> bool \<Rightarrow> memfn" where
  "handler (MakeFunction run cancel) ok = (if ok then run else cancel)"

text \<open>The completion of the \<open>i\<close>-th outstanding operation: it leaves the queue, its
  output is stored, and its handler runs.\<close>

definition deliver ::
  "bool \<Rightarrow> 'req \<Rightarrow> nat \<Rightarrow> bool \<Rightarrow> ResponseT \<Rightarrow> StatusCode \<Rightarrow> ('req, 'cb) world
     \<Rightarrow> fault + ('req, 'cb) world" where
  "deliver ndebug req i ok r st w =
     (if i < length (queue w)
      then dispatch ndebug req (handler (snd (queue w ! i)) ok)
             (transfer (fst (queue w ! i)) ok r st
                (w\<lparr>queue := take i (queue w) @ drop (Suc i) (queue w)\<rparr>))
      else Inr w)"

text \<open>
  What can happen to a client: the caller calls \<open>Start\<close> or \<open>SendResultToServer\<close>, or an
  outstanding operation completes, in any order. An event is one member function run
  from beginning to end. The mutex serialises the member functions of the client where
  they touch its fields, and the call of the callback is the last statement of a member
  function, after the mutex is released; a call of \<open>SendResultToServer\<close> from inside the
  callback is therefore the event that follows.
\<close>

datatype 'req event =
    Ev_Start
  | Ev_SendResultToServer 'req
  | Ev_Complete nat bool ResponseT StatusCode

fun step ::
  "bool \<Rightarrow> 'req \<Rightarrow> 'req event \<Rightarrow> ('req, 'cb) world \<Rightarrow> fault + ('req, 'cb) world" where
  "step ndebug req Ev_Start w = Start ndebug w"
| "step ndebug req (Ev_SendResultToServer response) w = SendResultToServer response w"
| "step ndebug req (Ev_Complete i ok r st) w = deliver ndebug req i ok r st w"

fun exec ::
  "bool \<Rightarrow> 'req \<Rightarrow> 'req event list \<Rightarrow> ('req, 'cb) world \<Rightarrow> fault + ('req, 'cb) world" where
  "exec ndebug req [] w = Inr w"
| "exec ndebug req (e # es) w =
     (case step ndebug req e w of
        Inl f \<Rightarrow> Inl f
      | Inr w' \<Rightarrow> exec ndebug req es w')"

subsection \<open>Reading a trace\<close>

fun is_callback :: "('req, 'cb) action \<Rightarrow> bool" where
  "is_callback (CallRun cb) = True"
| "is_callback (CallCancel cb) = True"
| "is_callback a = False"

definition callbacks :: "('req, 'cb) action list \<Rightarrow> nat" where
  "callbacks as = length (filter is_callback as)"

fun is_hook :: "('req, 'cb) action \<Rightarrow> bool" where
  "is_hook Hook_StartRpc = True"
| "is_hook Hook_PopulateServerRequest = True"
| "is_hook a = False"

text \<open>\<open>held b as\<close>: whether the mutex is held after the actions \<open>as\<close>, when \<open>b\<close> says
  whether it was held before.\<close>

fun held :: "bool \<Rightarrow> ('req, 'cb) action list \<Rightarrow> bool" where
  "held b [] = b"
| "held b (Lock # as) = held True as"
| "held b (Unlock # as) = held False as"
| "held b (a # as) = held b as"

text \<open>\<open>unlocked_at P b as\<close>: every action of \<open>as\<close> that satisfies \<open>P\<close> happens while the
  mutex is not held; \<open>locked_at\<close> is the same for held.\<close>

fun unlocked_at :: "(('req, 'cb) action \<Rightarrow> bool) \<Rightarrow> bool \<Rightarrow> ('req, 'cb) action list \<Rightarrow> bool" where
  "unlocked_at P b [] = True"
| "unlocked_at P b (a # as) = ((if P a then \<not> b else True) \<and> unlocked_at P (held b [a]) as)"

fun locked_at :: "(('req, 'cb) action \<Rightarrow> bool) \<Rightarrow> bool \<Rightarrow> ('req, 'cb) action list \<Rightarrow> bool" where
  "locked_at P b [] = True"
| "locked_at P b (a # as) = ((if P a then b else True) \<and> locked_at P (held b [a]) as)"

text \<open>
  What the caller and the transport may do. \<open>Start\<close> is called once. \<open>SendResultToServer\<close>
  is called after the callback has run (the class comment: if Run is called, do the work
  and then call \<open>SendResultToServer\<close>; it may be called any number of times). The
  completion queue completes an operation that is outstanding. The code relies on this
  order and asserts it: \<open>SetReaderWriter\<close> has \<open>DCHECK(rw_ == nullptr)\<close>, and
  \<open>NotifyClientOfServerDecision\<close> and \<open>StartUpFailed\<close> have \<open>DCHECK(rpc_ != nullptr)\<close>.
\<close>

fun allowed :: "'req event \<Rightarrow> ('req, 'cb) world \<Rightarrow> bool" where
  "allowed Ev_Start w = (Hook_StartRpc \<notin> set (trace w))"
| "allowed (Ev_SendResultToServer response) w = (0 < callbacks (trace w))"
| "allowed (Ev_Complete i ok r st) w = (i < length (queue w))"

fun admissible :: "bool \<Rightarrow> 'req \<Rightarrow> 'req event list \<Rightarrow> ('req, 'cb) world \<Rightarrow> bool" where
  "admissible ndebug req [] w = True"
| "admissible ndebug req (e # es) w =
     (allowed e w \<and>
      (case step ndebug req e w of
         Inl f \<Rightarrow> True
       | Inr w' \<Rightarrow> admissible ndebug req es w'))"

definition is_user_code :: "('req, 'cb) action \<Rightarrow> bool" where
  "is_user_code a = (is_callback a \<or> is_hook a)"

text \<open>The discipline the member functions follow: the callback is invoked with the
  mutex released, the hooks with the mutex held, and no member function returns holding
  the mutex.\<close>

definition lock_discipline :: "('req, 'cb) action list \<Rightarrow> bool" where
  "lock_discipline as =
     (unlocked_at is_callback False as \<and> locked_at is_hook False as \<and> \<not> held False as)"

text \<open>An operation of the start-up phase is outstanding: its tag has \<open>StartUpFailed\<close> as
  the member for failure.\<close>

definition startup_pending :: "('req, 'cb) world \<Rightarrow> bool" where
  "startup_pending w = (\<exists>q \<in> set (queue w). handler (snd q) False = Client_StartUpFailed)"

text \<open>The start-up phase is over: \<open>Start\<close> has been called and every operation of the
  phase has completed.\<close>

definition startup_over :: "('req, 'cb) world \<Rightarrow> bool" where
  "startup_over w = (Hook_StartRpc \<in> set (trace w) \<and> \<not> startup_pending w)"

definition noops :: "nat \<Rightarrow> ('req, 'cb) action list" where
  "noops n = concat (replicate n [Lock, Unlock])"

subsection \<open>Invariants\<close>

definition returns :: "fault + 'a \<Rightarrow> ('a \<Rightarrow> bool) \<Rightarrow> bool" where
  "returns r P = (case r of Inl e \<Rightarrow> False | Inr x \<Rightarrow> P x)"

definition has_channel :: "RpcHolder option \<Rightarrow> bool" where
  "has_channel x = (case x of None \<Rightarrow> False | Some h \<Rightarrow> rw h \<noteq> None)"

definition startup_ops :: "'req \<Rightarrow> ('req operation \<times> Function) list" where
  "startup_ops req =
     [(OpStartCall, MakeFunction Client_BootStrapFinished Client_StartUpFailed),
      (OpWrite req, MakeFunction Client_WriteServerRequestComplete Client_StartUpFailed),
      (OpRead, MakeFunction Client_NotifyClientOfServerDecision Client_StartUpFailed)]"

text \<open>The states a client goes through when the caller keeps to \<open>allowed\<close>: constructed;
  an operation of the start-up phase outstanding; \<open>Run\<close> called and the holder still
  attached; the holder detached with its last write or its finish outstanding; the holder
  gone.\<close>

definition idle :: "'cb \<Rightarrow> ('req, 'cb) world \<Rightarrow> bool" where
  "idle cb w =
     (callback w = Some cb \<and> rpc w \<noteq> None \<and> \<not> has_channel (rpc w) \<and> detached w = None
      \<and> queue w = [] \<and> callbacks (trace w) = 0 \<and> Hook_StartRpc \<notin> set (trace w))"

definition starting :: "'req \<Rightarrow> 'cb \<Rightarrow> ('req, 'cb) world \<Rightarrow> bool" where
  "starting req cb w =
     (callback w = Some cb \<and> has_channel (rpc w) \<and> detached w = None
      \<and> (\<exists>q \<in> set (startup_ops req). queue w = [q])
      \<and> callbacks (trace w) = 0 \<and> Hook_StartRpc \<in> set (trace w))"

definition granted :: "'cb \<Rightarrow> ('req, 'cb) world \<Rightarrow> bool" where
  "granted cb w =
     (callback w = None \<and> has_channel (rpc w) \<and> detached w = None
      \<and> queue w = [] \<and> filter is_callback (trace w) = [CallRun cb]
      \<and> Hook_StartRpc \<in> set (trace w))"

definition closing :: "('req, 'cb) world \<Rightarrow> bool" where
  "closing w =
     (callback w = None \<and> rpc w = None \<and> has_channel (detached w)
      \<and> ((\<exists>p. queue w = [(OpWrite p, CallbackForAsyncCleanup)])
          \<or> queue w = [(OpFinish, MakeFunction Holder_FinishSucceeded Holder_FinishFailed)])
      \<and> callbacks (trace w) = 1 \<and> Hook_StartRpc \<in> set (trace w))"

definition closed :: "('req, 'cb) world \<Rightarrow> bool" where
  "closed w =
     (callback w = None \<and> rpc w = None \<and> detached w = None
      \<and> queue w = [] \<and> callbacks (trace w) = 1 \<and> Hook_StartRpc \<in> set (trace w))"

definition protocol_inv :: "'req \<Rightarrow> 'cb \<Rightarrow> ('req, 'cb) world \<Rightarrow> bool" where
  "protocol_inv req cb w =
     (idle cb w \<or> starting req cb w \<or> granted cb w \<or> closing w \<or> closed w)"

text \<open>The callback pointer is null exactly when the callback has been invoked, and it
  has been invoked once then.\<close>

definition gate :: "'cb \<Rightarrow> ('req, 'cb) world \<Rightarrow> bool" where
  "gate cb w =
     (if callback w = None
      then filter is_callback (trace w) = [CallRun cb]
           \<or> filter is_callback (trace w) = [CallCancel cb]
      else callback w = Some cb \<and> filter is_callback (trace w) = [])"

text \<open>The holder is gone from \<open>rpc_\<close> and no read has been issued since the trace was
  \<open>t0\<close>.\<close>

definition no_read_since ::
  "('req, 'cb) action list \<Rightarrow> ('req, 'cb) world \<Rightarrow> bool" where
  "no_read_since t0 w =
     (rpc w = None \<and> take (length t0) (trace w) = t0 \<and> RwRead \<notin> set (drop (length t0) (trace w)))"

subsection \<open>A session with request 5 and callback 7\<close>

text \<open>The states of one session, written out: after the constructor; after \<open>Start\<close>, the
  open and the request write, with the decision read outstanding; after a decision to
  proceed; after a decision not to proceed; after a decision read that failed.\<close>

definition ex_constructed :: "(nat, nat) world" where
  "ex_constructed =
     \<lparr>callback = Some 7, rpc = Some \<lparr>rw = None, status = OK\<rparr>, resp = Clear,
      detached = None, queue = [], trace = []\<rparr>"

definition ex_startup :: "nat event list" where
  "ex_startup = [Ev_Start, Ev_Complete 0 True Clear OK, Ev_Complete 0 True Clear OK]"

definition ex_startup_trace :: "(nat, nat) action list" where
  "ex_startup_trace =
     [Lock, Hook_StartRpc, Unlock, Lock, Hook_PopulateServerRequest, RwWrite 5, Unlock,
      Lock, RwRead, Unlock]"

definition ex_awaiting :: "(nat, nat) world" where
  "ex_awaiting =
     \<lparr>callback = Some 7, rpc = Some \<lparr>rw = Some Channel, status = OK\<rparr>, resp = Clear,
      detached = None,
      queue = [(OpRead, MakeFunction Client_NotifyClientOfServerDecision Client_StartUpFailed)],
      trace = ex_startup_trace\<rparr>"

definition ex_granted :: "(nat, nat) world" where
  "ex_granted =
     \<lparr>callback = None, rpc = Some \<lparr>rw = Some Channel, status = OK\<rparr>, resp = Clear,
      detached = None, queue = [],
      trace = ex_startup_trace @ [Lock, Unlock, CallRun 7]\<rparr>"

definition ex_denied :: "(nat, nat) world" where
  "ex_denied =
     \<lparr>callback = None, rpc = None, resp = Clear, detached = None, queue = [],
      trace = ex_startup_trace @ [Lock, DeleteHolder, Unlock, CallCancel 7]\<rparr>"

definition ex_failed :: "(nat, nat) world" where
  "ex_failed =
     \<lparr>callback = None, rpc = None, resp = Clear,
      detached = Some \<lparr>rw = Some Channel, status = OK\<rparr>,
      queue = [(OpFinish, MakeFunction Holder_FinishSucceeded Holder_FinishFailed)],
      trace = ex_startup_trace
        @ [Lock, LogMessage kWarning ''Couldn't get response from CentralController'',
           RwFinish, Unlock, CallCancel 7]\<rparr>"

text \<open>The state after \<open>SendResultToServer\<close> is called while the decision read is
  outstanding.\<close>

definition ex_early_result :: "(nat, nat) world" where
  "ex_early_result =
     \<lparr>callback = Some 7, rpc = None, resp = Clear,
      detached = Some \<lparr>rw = Some Channel, status = OK\<rparr>,
      queue = [(OpRead, MakeFunction Client_NotifyClientOfServerDecision Client_StartUpFailed),
               (OpWrite 9, MakeFunction Holder_Finish Holder_Error)],
      trace = ex_startup_trace @ [Lock, RwWrite 9, Unlock]\<rparr>"

section \<open>Properties\<close>

subsection \<open>Auxiliary facts\<close>

lemmas shape_defs = idle_def starting_def granted_def closing_def closed_def has_channel_def
  startup_ops_def callbacks_def

lemmas op_defs = Start_def SendResultToServer_def BootStrapFinished_def
  WriteServerRequestComplete_def NotifyClientOfServerDecision_def StartUpFailed_def
  Finish_def Error_def FinishSucceeded_def FinishFailed_def CallbackForAsyncCleanup_def
  emit_def issue_def and_then_def deliver_def transfer_def FinishSucceeded_log_def

lemma returns_simps [simp]: "returns (Inr x) P = P x" "returns (Inl e) P = False"
  by (simp_all add: returns_def)

lemma returnsD: "returns r P \<Longrightarrow> \<exists>x. r = Inr x \<and> P x"
  by (cases r) simp_all

lemma returns_weaken: "returns r P \<Longrightarrow> (\<And>x. P x \<Longrightarrow> Q x) \<Longrightarrow> returns r Q"
  by (cases r) simp_all

lemma transfer_fields [simp]:
  "callback (transfer opn ok r st w) = callback w"
  "rpc (transfer opn ok r st w) = rpc w"
  "queue (transfer opn ok r st w) = queue w"
  "trace (transfer opn ok r st w) = trace w"
  by (simp_all add: transfer_def split: operation.splits option.splits)

subsubsection \<open>A caller that keeps to \<open>allowed\<close>\<close>

lemma idle_step:
  "idle cb w \<Longrightarrow> allowed e w \<Longrightarrow> returns (step nd req e w) (starting req cb)"
  by (cases e) (auto simp: shape_defs op_defs split: option.splits)

lemma starting_step:
  "starting req cb w \<Longrightarrow> allowed e w \<Longrightarrow>
     returns (step nd req e w)
       (\<lambda>w'. starting req cb w' \<or> granted cb w' \<or> closing w' \<or> closed w')"
  by (cases e) (auto simp: shape_defs op_defs split: option.splits)

lemma granted_step:
  "granted cb w \<Longrightarrow> allowed e w \<Longrightarrow> returns (step nd req e w) closing"
  by (cases e) (auto simp: shape_defs op_defs split: option.splits)

lemma closing_step:
  "closing w \<Longrightarrow> allowed e w \<Longrightarrow> returns (step nd req e w) (\<lambda>w'. closing w' \<or> closed w')"
  by (cases e) (auto simp: shape_defs op_defs split: option.splits)

lemma closed_step:
  "closed w \<Longrightarrow> allowed e w \<Longrightarrow> returns (step nd req e w) closed"
  by (cases e) (auto simp: shape_defs op_defs split: option.splits)

lemma inv_step:
  assumes "protocol_inv req cb w" and "allowed e w"
  shows "returns (step nd req e w) (protocol_inv req cb)"
proof -
  from assms(1) consider "idle cb w" | "starting req cb w" | "granted cb w"
    | "closing w" | "closed w"
    unfolding protocol_inv_def by blast
  then show ?thesis
  proof cases
    case 1
    from idle_step [OF 1 assms(2)] show ?thesis
      by (rule returns_weaken) (simp add: protocol_inv_def)
  next
    case 2
    from starting_step [OF 2 assms(2)] show ?thesis
      by (rule returns_weaken) (auto simp: protocol_inv_def)
  next
    case 3
    from granted_step [OF 3 assms(2)] show ?thesis
      by (rule returns_weaken) (simp add: protocol_inv_def)
  next
    case 4
    from closing_step [OF 4 assms(2)] show ?thesis
      by (rule returns_weaken) (auto simp: protocol_inv_def)
  next
    case 5
    from closed_step [OF 5 assms(2)] show ?thesis
      by (rule returns_weaken) (simp add: protocol_inv_def)
  qed
qed

lemma inv_exec:
  "protocol_inv req cb w \<Longrightarrow> admissible nd req evs w \<Longrightarrow>
     returns (exec nd req evs w) (protocol_inv req cb)"
proof (induction evs arbitrary: w)
  case Nil
  then show ?case by simp
next
  case (Cons e es)
  from Cons.prems have al: "allowed e w" by simp
  from inv_step [OF Cons.prems(1) al, of nd]
  obtain w' where st: "step nd req e w = Inr w'" and i': "protocol_inv req cb w'"
    by (auto dest: returnsD)
  from Cons.prems(2) st have "admissible nd req es w'" by simp
  from Cons.IH [OF i' this] st show ?case by simp
qed

lemma constructed_idle:
  "RequestResultRpcClient (Some cb) = Inr w0 \<Longrightarrow> idle cb w0"
  by (auto simp: RequestResultRpcClient_def shape_defs)

lemma reachable_inv:
  assumes "RequestResultRpcClient (Some cb) = Inr w0" and "admissible nd req evs w0"
  shows "\<exists>w. exec nd req evs w0 = Inr w \<and> protocol_inv req cb w"
proof -
  from constructed_idle [OF assms(1)] have "protocol_inv req cb w0"
    by (simp add: protocol_inv_def)
  from inv_exec [OF this assms(2)] show ?thesis by (rule returnsD)
qed

subsubsection \<open>Any caller\<close>

text \<open>A property that every member function keeps holds along every run.\<close>

lemma exec_invariant:
  assumes start: "\<And>w w'. I w \<Longrightarrow> Start nd w = Inr w' \<Longrightarrow> I w'"
    and send: "\<And>p w w'. I w \<Longrightarrow> SendResultToServer p w = Inr w' \<Longrightarrow> I w'"
    and disp: "\<And>m w w'. I w \<Longrightarrow> dispatch nd req m w = Inr w' \<Longrightarrow> I w'"
    and deq: "\<And>i opn ok r st w. I w \<Longrightarrow>
                I (transfer opn ok r st (w\<lparr>queue := take i (queue w) @ drop (Suc i) (queue w)\<rparr>))"
  shows "I w \<Longrightarrow> exec nd req evs w = Inr w' \<Longrightarrow> I w'"
proof (induction evs arbitrary: w)
  case Nil
  then show ?case by simp
next
  case (Cons e es)
  from Cons.prems(2) obtain w1 where st: "step nd req e w = Inr w1"
    and rest: "exec nd req es w1 = Inr w'"
    by (auto split: sum.splits)
  have "I w1"
  proof (cases e)
    case Ev_Start
    with st Cons.prems(1) show ?thesis by (auto intro: start)
  next
    case (Ev_SendResultToServer p)
    with st Cons.prems(1) show ?thesis by (auto intro: send)
  next
    case (Ev_Complete i ok r st')
    show ?thesis
    proof (cases "i < length (queue w)")
      case True
      let ?w = "transfer (fst (queue w ! i)) ok r st'
                  (w\<lparr>queue := take i (queue w) @ drop (Suc i) (queue w)\<rparr>)"
      from Cons.prems(1) have "I ?w" by (rule deq)
      moreover from st Ev_Complete True
      have "dispatch nd req (handler (snd (queue w ! i)) ok) ?w = Inr w1"
        by (simp add: deliver_def)
      ultimately show ?thesis by (rule disp)
    next
      case False
      with st Ev_Complete Cons.prems(1) show ?thesis by (simp add: deliver_def)
    qed
  qed
  from Cons.IH [OF this rest] show ?case .
qed

lemma gate_dispatch: "gate cb w \<Longrightarrow> dispatch nd req m w = Inr w' \<Longrightarrow> gate cb w'"
  by (cases m) (auto simp: gate_def op_defs split: option.splits if_splits)

lemma gate_exec: "gate cb w \<Longrightarrow> exec nd req evs w = Inr w' \<Longrightarrow> gate cb w'"
proof (rule exec_invariant [where I = "gate cb"])
  show "\<And>w w'. gate cb w \<Longrightarrow> Start nd w = Inr w' \<Longrightarrow> gate cb w'"
    by (auto simp: gate_def op_defs split: option.splits if_splits)
  show "\<And>p w w'. gate cb w \<Longrightarrow> SendResultToServer p w = Inr w' \<Longrightarrow> gate cb w'"
    by (auto simp: gate_def op_defs split: option.splits if_splits)
  show "\<And>m w w'. gate cb w \<Longrightarrow> dispatch nd req m w = Inr w' \<Longrightarrow> gate cb w'"
    by (rule gate_dispatch)
  show "\<And>i opn ok r st w. gate cb w \<Longrightarrow>
          gate cb (transfer opn ok r st (w\<lparr>queue := take i (queue w) @ drop (Suc i) (queue w)\<rparr>))"
    by (simp add: gate_def)
qed

lemma constructed_gate: "RequestResultRpcClient (Some cb) = Inr w0 \<Longrightarrow> gate cb w0"
  by (auto simp: RequestResultRpcClient_def gate_def)

lemma emit_emit: "emit bs (emit as w) = emit (as @ bs) w"
  by (simp add: emit_def)

lemma emit_Nil: "emit [] w = w"
  by (simp add: emit_def)

lemma noops_Suc: "noops (Suc n) = [Lock, Unlock] @ noops n"
  by (simp add: noops_def)

lemma rpc_emit [simp]: "rpc (emit as w) = rpc w"
  by (simp add: emit_def)

lemma send_noops:
  "rpc w = None \<Longrightarrow>
     exec nd req (map Ev_SendResultToServer ps) w = Inr (emit (noops (length ps)) w)"
proof (induction ps arbitrary: w)
  case Nil
  then show ?case by (simp add: noops_def emit_Nil)
next
  case (Cons p ps)
  from Cons.prems have "SendResultToServer p w = Inr (emit [Lock, Unlock] w)"
    by (simp add: SendResultToServer_def)
  moreover from Cons.prems have "rpc (emit [Lock, Unlock] w) = None" by simp
  ultimately show ?case
    using Cons.IH [of "emit [Lock, Unlock] w"] by (simp add: emit_emit noops_Suc)
qed

lemma rpc_None_dispatch: "rpc w = None \<Longrightarrow> dispatch nd req m w = Inr w' \<Longrightarrow> rpc w' = None"
  by (cases m) (auto simp: op_defs split: option.splits if_splits)

lemma rpc_None_exec: "rpc w = None \<Longrightarrow> exec nd req evs w = Inr w' \<Longrightarrow> rpc w' = None"
proof (rule exec_invariant [where I = "\<lambda>w. rpc w = None"])
  show "\<And>w w'. rpc w = None \<Longrightarrow> Start nd w = Inr w' \<Longrightarrow> rpc w' = None"
    by (simp add: Start_def)
  show "\<And>p w w'. rpc w = None \<Longrightarrow> SendResultToServer p w = Inr w' \<Longrightarrow> rpc w' = None"
    by (auto simp: SendResultToServer_def)
  show "\<And>m w w'. rpc w = None \<Longrightarrow> dispatch nd req m w = Inr w' \<Longrightarrow> rpc w' = None"
    by (rule rpc_None_dispatch)
  show "\<And>i opn ok r st w. rpc w = None \<Longrightarrow>
          rpc (transfer opn ok r st (w\<lparr>queue := take i (queue w) @ drop (Suc i) (queue w)\<rparr>)) = None"
    by simp
qed

lemma ex_startup_run:
  "RequestResultRpcClient (Some 7) = Inr ex_constructed"
  "exec nd 5 ex_startup ex_constructed = Inr ex_awaiting"
  "admissible nd 5 ex_startup ex_constructed"
  by (simp_all add: RequestResultRpcClient_def ex_constructed_def ex_startup_def ex_awaiting_def
        ex_startup_trace_def Clear_def op_defs callbacks_def)

lemma ex_grant_run:
  "exec nd 5 (ex_startup @ [Ev_Complete 0 True \<lparr>ok_to_proceed = True\<rparr> OK]) ex_constructed
     = Inr ex_granted"
  "admissible nd 5 (ex_startup @ [Ev_Complete 0 True \<lparr>ok_to_proceed = True\<rparr> OK]) ex_constructed"
  by (simp_all add: ex_constructed_def ex_startup_def ex_granted_def ex_startup_trace_def
        Clear_def op_defs callbacks_def)

lemma exec_append:
  "exec nd req xs w = Inr w1 \<Longrightarrow> exec nd req (xs @ ys) w = exec nd req ys w1"
  by (induction xs arbitrary: w) (auto split: sum.splits)

lemma reachable_gate:
  assumes "RequestResultRpcClient (Some cb) = Inr w0" and "exec nd req evs w0 = Inr w"
  shows "gate cb w"
  using gate_exec [OF constructed_gate [OF assms(1)] assms(2)] .

lemma granted_send:
  assumes "granted cb w"
  shows "\<exists>h. rpc w = Some h \<and>
           exec nd req (Ev_SendResultToServer p # map Ev_SendResultToServer ps
                          @ Ev_Complete 0 ok r st # map Ev_SendResultToServer ps') w =
             Inr (w\<lparr>rpc := None, detached := Some h,
                    queue := [(OpFinish, MakeFunction Holder_FinishSucceeded Holder_FinishFailed)],
                    trace := trace w @ [Lock, RwWrite p, Unlock] @ noops (length ps)
                      @ (if ok then []
                         else [LogMessage kWarning ''RpcHolder cleanup to CentralController failed''])
                      @ [RwFinish] @ noops (length ps')\<rparr>)"
proof -
  from assms obtain h ch where h: "rpc w = Some h" "rw h = Some ch" and q: "queue w = []"
    by (auto simp: shape_defs split: option.splits)
  let ?w1 = "w\<lparr>rpc := None, detached := Some h,
                queue := [(OpWrite p, CallbackForAsyncCleanup)],
                trace := trace w @ [Lock, RwWrite p, Unlock]\<rparr>"
  let ?w2 = "emit (noops (length ps)) ?w1"
  let ?w3 = "?w2\<lparr>queue := [(OpFinish, MakeFunction Holder_FinishSucceeded Holder_FinishFailed)],
                  trace := trace ?w2
                    @ (if ok then []
                       else [LogMessage kWarning ''RpcHolder cleanup to CentralController failed''])
                    @ [RwFinish]\<rparr>"
  have s1: "step nd req (Ev_SendResultToServer p) w = Inr ?w1"
    using h q by (simp add: op_defs)
  have s2: "exec nd req (map Ev_SendResultToServer ps) ?w1 = Inr ?w2"
    by (rule send_noops) simp
  have s3: "step nd req (Ev_Complete 0 ok r st) ?w2 = Inr ?w3"
    using h by (simp add: op_defs)
  have s4: "exec nd req (map Ev_SendResultToServer ps') ?w3 = Inr (emit (noops (length ps')) ?w3)"
    by (rule send_noops) (simp add: emit_def)
  have "exec nd req (Ev_SendResultToServer p # map Ev_SendResultToServer ps
                          @ Ev_Complete 0 ok r st # map Ev_SendResultToServer ps') w
        = exec nd req (Ev_Complete 0 ok r st # map Ev_SendResultToServer ps') ?w2"
    using s1 exec_append [OF s2] by simp
  also have "\<dots> = Inr (emit (noops (length ps')) ?w3)"
    using s3 s4 by simp
  finally show ?thesis using h by (simp add: emit_def)
qed

subsubsection \<open>The mutex\<close>

lemma held_append: "held b (xs @ ys) = held (held b xs) ys"
proof (induction xs arbitrary: b)
  case Nil
  then show ?case by simp
next
  case (Cons a xs)
  then show ?case by (cases a) simp_all
qed

lemma unlocked_at_append:
  "unlocked_at P b (xs @ ys) = (unlocked_at P b xs \<and> unlocked_at P (held b xs) ys)"
proof (induction xs arbitrary: b)
  case Nil
  then show ?case by simp
next
  case (Cons a xs)
  then show ?case by (cases a) auto
qed

lemma locked_at_append:
  "locked_at P b (xs @ ys) = (locked_at P b xs \<and> locked_at P (held b xs) ys)"
proof (induction xs arbitrary: b)
  case Nil
  then show ?case by simp
next
  case (Cons a xs)
  then show ?case by (cases a) auto
qed

lemma lock_discipline_append:
  "lock_discipline xs \<Longrightarrow> lock_discipline ys \<Longrightarrow> lock_discipline (xs @ ys)"
  by (simp add: lock_discipline_def held_append unlocked_at_append locked_at_append)

lemma lock_discipline_dispatch:
  "lock_discipline (trace w) \<Longrightarrow> dispatch nd req m w = Inr w' \<Longrightarrow> lock_discipline (trace w')"
  by (cases m)
     (auto simp: op_defs lock_discipline_def held_append unlocked_at_append locked_at_append
           split: option.splits if_splits)

lemma lock_discipline_exec:
  "lock_discipline (trace w) \<Longrightarrow> exec nd req evs w = Inr w' \<Longrightarrow> lock_discipline (trace w')"
proof (rule exec_invariant [where I = "\<lambda>w. lock_discipline (trace w)"])
  show "\<And>w w'. lock_discipline (trace w) \<Longrightarrow> Start nd w = Inr w' \<Longrightarrow> lock_discipline (trace w')"
    by (auto simp: op_defs lock_discipline_def held_append unlocked_at_append locked_at_append
           split: option.splits if_splits)
  show "\<And>p w w'. lock_discipline (trace w) \<Longrightarrow> SendResultToServer p w = Inr w'
          \<Longrightarrow> lock_discipline (trace w')"
    by (auto simp: op_defs lock_discipline_def held_append unlocked_at_append locked_at_append
           split: option.splits if_splits)
  show "\<And>m w w'. lock_discipline (trace w) \<Longrightarrow> dispatch nd req m w = Inr w'
          \<Longrightarrow> lock_discipline (trace w')"
    by (rule lock_discipline_dispatch)
  show "\<And>i opn ok r st w. lock_discipline (trace w) \<Longrightarrow>
          lock_discipline (trace (transfer opn ok r st
             (w\<lparr>queue := take i (queue w) @ drop (Suc i) (queue w)\<rparr>)))"
    by simp
qed

subsubsection \<open>After the holder has left\<close>

lemma no_read_since_iff:
  "no_read_since t0 w = (rpc w = None \<and> (\<exists>ys. trace w = t0 @ ys \<and> RwRead \<notin> set ys))"
proof -
  have "(take (length t0) (trace w) = t0 \<and> RwRead \<notin> set (drop (length t0) (trace w)))
        = (\<exists>ys. trace w = t0 @ ys \<and> RwRead \<notin> set ys)"
  proof
    assume a: "take (length t0) (trace w) = t0 \<and> RwRead \<notin> set (drop (length t0) (trace w))"
    then have "trace w = t0 @ drop (length t0) (trace w)"
      by (metis append_take_drop_id)
    with a show "\<exists>ys. trace w = t0 @ ys \<and> RwRead \<notin> set ys" by blast
  next
    assume "\<exists>ys. trace w = t0 @ ys \<and> RwRead \<notin> set ys"
    then show "take (length t0) (trace w) = t0 \<and> RwRead \<notin> set (drop (length t0) (trace w))"
      by auto
  qed
  then show ?thesis by (simp add: no_read_since_def)
qed

lemma no_read_since_dispatch:
  "no_read_since t0 w \<Longrightarrow> dispatch nd req m w = Inr w' \<Longrightarrow> no_read_since t0 w'"
  unfolding no_read_since_iff
  by (cases m) (auto simp: op_defs split: option.splits if_splits)

lemma no_read_since_exec:
  "no_read_since t0 w \<Longrightarrow> exec nd req evs w = Inr w' \<Longrightarrow> no_read_since t0 w'"
proof (rule exec_invariant [where I = "no_read_since t0"])
  show "\<And>w w'. no_read_since t0 w \<Longrightarrow> Start nd w = Inr w' \<Longrightarrow> no_read_since t0 w'"
    by (simp add: no_read_since_def Start_def)
  show "\<And>p w w'. no_read_since t0 w \<Longrightarrow> SendResultToServer p w = Inr w'
          \<Longrightarrow> no_read_since t0 w'"
    unfolding no_read_since_iff by (auto simp: op_defs)
  show "\<And>m w w'. no_read_since t0 w \<Longrightarrow> dispatch nd req m w = Inr w' \<Longrightarrow> no_read_since t0 w'"
    by (rule no_read_since_dispatch)
  show "\<And>i opn ok r st w. no_read_since t0 w \<Longrightarrow>
          no_read_since t0 (transfer opn ok r st
             (w\<lparr>queue := take i (queue w) @ drop (Suc i) (queue w)\<rparr>))"
    by (simp add: no_read_since_def)
qed

subsection \<open>The claims\<close>

text \<open>
  C1. The callback is invoked exactly once. Take a client as the constructor returns it.
  (a) Whatever the events and their order, as long as the process has not aborted: the
  callback has been invoked at most once, and once it has been invoked \<open>callback_\<close> is
  null; \<open>NotifyClientOfServerDecision\<close> and \<open>StartUpFailed\<close> clear the pointer in the
  guarded section in which they read it, so there is nothing left to invoke a second
  time. (b) When the caller calls \<open>Start\<close> once and \<open>SendResultToServer\<close> only after the
  callback has run, the process does not abort, and for every order and outcome of the
  completions: as soon as the start-up phase is over there has been exactly one
  invocation, \<open>CallRun\<close> or \<open>CallCancel\<close>, of the callback given to the constructor;
  before that there has been none.
\<close>

theorem callback_invoked_exactly_once:
  assumes "RequestResultRpcClient (Some cb) = Inr w0"
  shows "(\<forall>w. exec nd req evs w0 = Inr w \<longrightarrow>
            callbacks (trace w) \<le> 1 \<and> (callbacks (trace w) = 1 \<longrightarrow> callback w = None))
       \<and> (admissible nd req evs w0 \<longrightarrow>
            (\<exists>w. exec nd req evs w0 = Inr w \<and>
               (if startup_over w
                then filter is_callback (trace w) = [CallRun cb]
                     \<or> filter is_callback (trace w) = [CallCancel cb]
                else filter is_callback (trace w) = [])))"
proof (intro conjI allI impI)
  fix w assume e: "exec nd req evs w0 = Inr w"
  from reachable_gate [OF assms e] show "callbacks (trace w) \<le> 1"
    by (auto simp: gate_def callbacks_def split: if_splits)
  assume "callbacks (trace w) = 1"
  with reachable_gate [OF assms e] show "callback w = None"
    by (auto simp: gate_def callbacks_def split: if_splits)
next
  assume a: "admissible nd req evs w0"
  from reachable_inv [OF assms a] obtain w where e: "exec nd req evs w0 = Inr w"
    and i: "protocol_inv req cb w" by blast
  from reachable_gate [OF assms e] have g: "gate cb w" .
  from i g have "if startup_over w
                then filter is_callback (trace w) = [CallRun cb]
                     \<or> filter is_callback (trace w) = [CallCancel cb]
                else filter is_callback (trace w) = []"
    by (auto simp: protocol_inv_def shape_defs gate_def startup_over_def startup_pending_def
          CallbackForAsyncCleanup_def split: if_splits)
  with e show "\<exists>w. exec nd req evs w0 = Inr w \<and>
               (if startup_over w
                then filter is_callback (trace w) = [CallRun cb]
                     \<or> filter is_callback (trace w) = [CallCancel cb]
                else filter is_callback (trace w) = [])" by blast
qed

text \<open>The session that was granted: one invocation, of \<open>CallRun\<close>.\<close>

theorem callback_invoked_exactly_once_witness:
  "RequestResultRpcClient (Some 7) = Inr ex_constructed
   \<and> admissible True 5 (ex_startup @ [Ev_Complete 0 True \<lparr>ok_to_proceed = True\<rparr> OK])
        ex_constructed
   \<and> exec True 5 (ex_startup @ [Ev_Complete 0 True \<lparr>ok_to_proceed = True\<rparr> OK])
        ex_constructed = Inr ex_granted
   \<and> startup_over ex_granted
   \<and> callbacks (trace ex_granted) = 1
   \<and> callback ex_granted = None
   \<and> filter is_callback (trace ex_granted) = [CallRun 7]"
proof -
  let ?evs = "ex_startup @ [Ev_Complete 0 True \<lparr>ok_to_proceed = True\<rparr> OK]"
  note c = ex_startup_run(1)
  note e = ex_grant_run(1) [of True]
  note a = ex_grant_run(2) [of True]
  have so: "startup_over ex_granted"
    by (simp add: startup_over_def startup_pending_def ex_constructed_def ex_startup_def
          ex_granted_def ex_startup_trace_def Clear_def)
  have run: "filter is_callback (trace ex_granted) \<noteq> [CallCancel 7]"
    by (simp add: ex_constructed_def ex_startup_def ex_granted_def ex_startup_trace_def Clear_def)
  from callback_invoked_exactly_once [OF c, of True 5 ?evs] a e so run
  have "filter is_callback (trace ex_granted) = [CallRun 7]
        \<and> callbacks (trace ex_granted) \<le> 1
        \<and> (callbacks (trace ex_granted) = 1 \<longrightarrow> callback ex_granted = None)"
    by auto
  moreover have "callbacks (trace ex_granted) = 1"
    by (simp add: callbacks_def ex_constructed_def ex_startup_def ex_granted_def
          ex_startup_trace_def Clear_def)
  ultimately show ?thesis using c a e so by simp
qed

text \<open>
  C2, as the code has it. When the decision read completes with a response that does not
  say to proceed, \<open>NotifyClientOfServerDecision\<close> clears the response and the callback
  pointer, destroys the holder with \<open>rpc_.reset()\<close> while it holds the mutex, releases the
  mutex and then calls \<open>CallCancel\<close> on the callback. It does not call \<open>Finish\<close>: no
  operation is issued and none is outstanding afterwards.
\<close>

theorem deny_destroys_holder_then_cancels:
  assumes "callback w = Some cb" and "rpc w = Some h"
    and "queue w = [(OpRead, MakeFunction Client_NotifyClientOfServerDecision Client_StartUpFailed)]"
    and "\<not> ok_to_proceed r"
  shows "deliver nd req 0 True r st w =
           Inr (w\<lparr>queue := [], resp := Clear, callback := None, rpc := None,
                  trace := trace w @ [Lock, DeleteHolder, Unlock, CallCancel cb]\<rparr>)"
  using assms by (simp add: op_defs)

theorem deny_destroys_holder_then_cancels_witness:
  "callback ex_awaiting = Some 7
   \<and> rpc ex_awaiting = Some \<lparr>rw = Some Channel, status = OK\<rparr>
   \<and> queue ex_awaiting
       = [(OpRead, MakeFunction Client_NotifyClientOfServerDecision Client_StartUpFailed)]
   \<and> \<not> ok_to_proceed \<lparr>ok_to_proceed = False\<rparr>
   \<and> deliver True 5 0 True \<lparr>ok_to_proceed = False\<rparr> OK ex_awaiting = Inr ex_denied"
proof -
  have a: "callback ex_awaiting = Some 7"
    by (simp add: ex_awaiting_def ex_denied_def ex_startup_trace_def Clear_def)
  have b: "rpc ex_awaiting = Some \<lparr>rw = Some Channel, status = OK\<rparr>"
    by (simp add: ex_awaiting_def ex_denied_def ex_startup_trace_def Clear_def)
  have c: "queue ex_awaiting
             = [(OpRead, MakeFunction Client_NotifyClientOfServerDecision Client_StartUpFailed)]"
    by (simp add: ex_awaiting_def ex_denied_def ex_startup_trace_def Clear_def)
  have d: "\<not> ok_to_proceed \<lparr>ok_to_proceed = False\<rparr>" by simp
  from deny_destroys_holder_then_cancels [OF a b c d, of True 5 OK] a b c d
  show ?thesis by (simp add: ex_awaiting_def ex_denied_def ex_startup_trace_def Clear_def)
qed

text \<open>C2 as stated fails: in the session that was denied the trace holds no \<open>Finish\<close> and
  no finish operation is outstanding; the holder was destroyed, not detached.\<close>

theorem deny_without_Finish_counterexample:
  "deliver True 5 0 True \<lparr>ok_to_proceed = False\<rparr> OK ex_awaiting = Inr ex_denied
   \<and> RwFinish \<notin> set (trace ex_denied) \<and> DeleteHolder \<in> set (trace ex_denied)
   \<and> queue ex_denied = [] \<and> detached ex_denied = None"
  by (simp add: ex_awaiting_def ex_denied_def ex_startup_trace_def Clear_def op_defs)

text \<open>
  C3, as the code has it. Along every run of a client, whatever the events: the callback
  (\<open>CallRun\<close>, \<open>CallCancel\<close>) is invoked only while the mutex is not held; the subclass
  hooks \<open>StartRpc\<close> and \<open>PopulateServerRequest\<close> are invoked only while the mutex is held
  (\<open>Start\<close> and \<open>BootStrapFinished\<close> keep their \<open>ScopedMutex\<close> to the end of the scope); and
  no member function returns with the mutex held.
\<close>

theorem callback_outside_lock_hooks_inside:
  assumes "RequestResultRpcClient (Some cb) = Inr w0" and "exec nd req evs w0 = Inr w"
  shows "unlocked_at is_callback False (trace w) \<and> locked_at is_hook False (trace w)
         \<and> \<not> held False (trace w)"
proof -
  from assms(1) have "lock_discipline (trace w0)"
    by (auto simp: RequestResultRpcClient_def lock_discipline_def)
  from lock_discipline_exec [OF this assms(2)] show ?thesis
    by (simp add: lock_discipline_def)
qed

theorem callback_outside_lock_hooks_inside_witness:
  "RequestResultRpcClient (Some 7) = Inr ex_constructed
   \<and> exec True 5 (ex_startup @ [Ev_Complete 0 True \<lparr>ok_to_proceed = True\<rparr> OK])
        ex_constructed = Inr ex_granted
   \<and> unlocked_at is_callback False (trace ex_granted)
   \<and> locked_at is_hook False (trace ex_granted)
   \<and> \<not> held False (trace ex_granted)"
  using callback_outside_lock_hooks_inside [OF ex_startup_run(1) ex_grant_run(1) [of True]]
    ex_startup_run(1) ex_grant_run(1) [of True]
  by simp

text \<open>C3 as stated fails for the hooks: in the trace of \<open>Start\<close> and of
  \<open>BootStrapFinished\<close> the hook stands between the taking and the releasing of the
  mutex.\<close>

theorem hooks_under_lock_counterexample:
  "map_sum id trace (exec True 5 [Ev_Start, Ev_Complete 0 True Clear OK] ex_constructed)
     = Inr [Lock, Hook_StartRpc, Unlock, Lock, Hook_PopulateServerRequest, RwWrite 5, Unlock]
   \<and> \<not> unlocked_at is_user_code False
         [Lock, Hook_StartRpc, Unlock, Lock, Hook_PopulateServerRequest, RwWrite 5, Unlock]
   \<and> \<not> unlocked_at is_user_code False [Lock, Hook_StartRpc, Unlock]
   \<and> \<not> unlocked_at is_user_code False [Lock, Hook_PopulateServerRequest, RwWrite 5, Unlock]"
  by (simp add: ex_constructed_def Clear_def op_defs is_user_code_def)

text \<open>
  C4. A call of \<open>SendResultToServer\<close> after the session has been disposed of is a no-op.
  Let \<open>w1\<close> be the state in which the holder was disposed of: after
  \<open>NotifyClientOfServerDecision\<close> on a response that does not say to proceed, after
  \<open>StartUpFailed\<close>, or after an earlier \<open>SendResultToServer\<close>. Let \<open>w\<close> be any state
  reached from \<open>w1\<close> by any events. Then any number of calls of \<open>SendResultToServer\<close>, with
  any payloads, return the state \<open>w\<close> with nothing but the taking and releasing of the
  mutex added to the trace: no field changes, no operation becomes outstanding, nothing
  is written.
\<close>

theorem SendResultToServer_after_disposal:
  assumes "(NotifyClientOfServerDecision nd w0 = Inr w1 \<and> \<not> ok_to_proceed (resp w0))
           \<or> StartUpFailed nd w0 = Inr w1
           \<or> SendResultToServer p w0 = Inr w1"
    and "exec nd req evs w1 = Inr w"
  shows "exec nd req (map Ev_SendResultToServer ps) w = Inr (emit (noops (length ps)) w)"
proof -
  from assms(1) have "rpc w1 = None"
    by (auto simp: op_defs split: option.splits if_splits)
  with assms(2) have "rpc w = None" by (rule rpc_None_exec [rotated])
  then show ?thesis by (rule send_noops)
qed

text \<open>The session that was denied: two further calls change nothing but the trace, by
  two pairs of taking and releasing the mutex.\<close>

theorem SendResultToServer_after_disposal_witness:
  "NotifyClientOfServerDecision True (ex_awaiting\<lparr>queue := []\<rparr>) = Inr ex_denied
   \<and> \<not> ok_to_proceed (resp (ex_awaiting\<lparr>queue := []\<rparr>))
   \<and> exec True 5 [] ex_denied = Inr ex_denied
   \<and> exec True 5 (map Ev_SendResultToServer [9, 9]) ex_denied
       = Inr (ex_denied\<lparr>trace := trace ex_denied @ [Lock, Unlock, Lock, Unlock]\<rparr>)"
proof -
  let ?w0 = "ex_awaiting\<lparr>queue := []\<rparr>"
  have a: "NotifyClientOfServerDecision True ?w0 = Inr ex_denied"
    by (simp add: ex_awaiting_def ex_denied_def ex_startup_trace_def Clear_def op_defs)
  have b: "\<not> ok_to_proceed (resp ?w0)"
    by (simp add: ex_awaiting_def ex_denied_def ex_startup_trace_def Clear_def)
  have c: "exec True 5 [] ex_denied = Inr ex_denied" by simp
  from a b have d: "(NotifyClientOfServerDecision True ?w0 = Inr ex_denied
                      \<and> \<not> ok_to_proceed (resp ?w0))
                    \<or> StartUpFailed True ?w0 = Inr ex_denied
                    \<or> SendResultToServer 0 ?w0 = Inr ex_denied"
    by simp
  from SendResultToServer_after_disposal [OF d c, of "[9, 9]"] a b c
  show ?thesis by (simp add: emit_def noops_def)
qed

text \<open>
  C5. The result after a decision to proceed. Take a state of a session in which the
  callback has been run (\<open>CallRun\<close>) and the holder is still attached. The first call of
  \<open>SendResultToServer\<close> writes its payload once, with \<open>CallbackForAsyncCleanup\<close> as the
  tag. When that write completes, with success or with failure (then a warning is
  logged), the holder calls \<open>Finish\<close> once. Every further call of \<open>SendResultToServer\<close>,
  before or after the write completes, only takes and releases the mutex. At the end the
  finish is the one operation outstanding.
\<close>

theorem completion_write_then_finish:
  assumes "RequestResultRpcClient (Some cb) = Inr w0"
    and "admissible nd req evs w0"
    and "exec nd req evs w0 = Inr w"
    and "filter is_callback (trace w) = [CallRun cb]"
    and "rpc w = Some h"
  shows "exec nd req (Ev_SendResultToServer p # map Ev_SendResultToServer ps
                          @ Ev_Complete 0 ok r st # map Ev_SendResultToServer ps') w =
             Inr (w\<lparr>rpc := None, detached := Some h,
                    queue := [(OpFinish, MakeFunction Holder_FinishSucceeded Holder_FinishFailed)],
                    trace := trace w @ [Lock, RwWrite p, Unlock] @ noops (length ps)
                      @ (if ok then []
                         else [LogMessage kWarning ''RpcHolder cleanup to CentralController failed''])
                      @ [RwFinish] @ noops (length ps')\<rparr>)"
proof -
  from reachable_inv [OF assms(1,2)] assms(3) have "protocol_inv req cb w" by auto
  with assms(4,5) have "granted cb w"
    by (auto simp: protocol_inv_def shape_defs)
  from granted_send [OF this, of nd req p ps ok r st ps'] assms(5) show ?thesis by simp
qed

theorem completion_write_then_finish_witness:
  "RequestResultRpcClient (Some 7) = Inr ex_constructed
   \<and> admissible True 5 (ex_startup @ [Ev_Complete 0 True \<lparr>ok_to_proceed = True\<rparr> OK])
        ex_constructed
   \<and> exec True 5 (ex_startup @ [Ev_Complete 0 True \<lparr>ok_to_proceed = True\<rparr> OK])
        ex_constructed = Inr ex_granted
   \<and> filter is_callback (trace ex_granted) = [CallRun 7]
   \<and> rpc ex_granted = Some \<lparr>rw = Some Channel, status = OK\<rparr>
   \<and> exec True 5 [Ev_SendResultToServer 9, Ev_SendResultToServer 8,
                   Ev_Complete 0 True Clear OK, Ev_SendResultToServer 8] ex_granted =
       Inr (ex_granted\<lparr>rpc := None, detached := Some \<lparr>rw = Some Channel, status = OK\<rparr>,
              queue := [(OpFinish, MakeFunction Holder_FinishSucceeded Holder_FinishFailed)],
              trace := trace ex_granted
                @ [Lock, RwWrite 9, Unlock, Lock, Unlock, RwFinish, Lock, Unlock]\<rparr>)"
proof -
  have f: "filter is_callback (trace ex_granted) = [CallRun 7]"
    by (simp add: ex_constructed_def ex_startup_def ex_granted_def ex_startup_trace_def
          Clear_def)
  have r: "rpc ex_granted = Some \<lparr>rw = Some Channel, status = OK\<rparr>"
    by (simp add: ex_constructed_def ex_startup_def ex_granted_def ex_startup_trace_def
          Clear_def)
  from completion_write_then_finish [OF ex_startup_run(1) ex_grant_run(2) ex_grant_run(1) f r,
      of True 9 "[8]" True Clear OK "[8]"]
    ex_startup_run(1) ex_grant_run(2) [of True] ex_grant_run(1) [of True] f r
  show ?thesis by (simp add: noops_def)
qed

text \<open>
  C6. The completion of the close handshake. When the finish operation of the detached
  holder completes with final status \<open>st\<close>, \<open>FinishSucceeded\<close> runs: for \<open>OK\<close> and
  \<open>CANCELLED\<close> it logs nothing; for \<open>ABORTED\<close> it logs one message, of severity \<open>kFatal\<close>
  in a debug build and \<open>kWarning\<close> in a release build; for every other status it logs one
  message of severity \<open>kWarning\<close>. Then the holder deletes itself.
\<close>

theorem final_status_classification:
  assumes "detached w = Some h"
    and "queue w = [(OpFinish, MakeFunction Holder_FinishSucceeded Holder_FinishFailed)]"
  shows "deliver ndebug req 0 True r st w =
           Inr (w\<lparr>queue := [], detached := None,
                  trace := trace w
                    @ (if st = OK \<or> st = CANCELLED then []
                       else if st = ABORTED \<and> \<not> ndebug
                         then [LogMessage kFatal
                                 ''Received error status from CentralController: %d (%s)'']
                         else [LogMessage kWarning
                                 ''Received error status from CentralController: %d (%s)''])
                    @ [DeleteHolder]\<rparr>)"
  using assms by (simp add: op_defs severity_def)

text \<open>The session whose decision read failed, closed with status \<open>ABORTED\<close> in a debug
  build.\<close>

theorem final_status_classification_witness:
  "detached ex_failed = Some \<lparr>rw = Some Channel, status = OK\<rparr>
   \<and> queue ex_failed = [(OpFinish, MakeFunction Holder_FinishSucceeded Holder_FinishFailed)]
   \<and> deliver False (5::nat) 0 True Clear ABORTED ex_failed =
       Inr (ex_failed\<lparr>queue := [], detached := None,
              trace := trace ex_failed
                @ [LogMessage kFatal ''Received error status from CentralController: %d (%s)'',
                   DeleteHolder]\<rparr>)"
proof -
  have a: "detached ex_failed = Some \<lparr>rw = Some Channel, status = OK\<rparr>"
    by (simp add: ex_failed_def ex_startup_trace_def Clear_def)
  have b: "queue ex_failed = [(OpFinish, MakeFunction Holder_FinishSucceeded Holder_FinishFailed)]"
    by (simp add: ex_failed_def ex_startup_trace_def Clear_def)
  from final_status_classification [OF a b, of False 5 Clear ABORTED] a b
  show ?thesis by simp
qed

text \<open>
  C7. A failure in the start-up phase. Take a state of a session in which an operation
  of the start-up phase (the open, the request write or the decision read) is
  outstanding. It is the only operation outstanding and the holder is attached. When it
  completes with failure, \<open>StartUpFailed\<close> logs a warning, detaches the holder and calls
  \<open>Finish\<close> on it, clears the callback pointer, releases the mutex and calls \<open>CallCancel\<close>;
  the finish is then the one operation outstanding. Whatever happens afterwards, no read
  is issued any more.
\<close>

theorem startup_failure_finishes_and_cancels:
  assumes "RequestResultRpcClient (Some cb) = Inr w0"
    and "admissible nd req evs w0"
    and "exec nd req evs w0 = Inr w"
    and "startup_pending w"
  shows "\<exists>h w1. rpc w = Some h
           \<and> w1 = w\<lparr>queue := [(OpFinish, MakeFunction Holder_FinishSucceeded Holder_FinishFailed)],
                     rpc := None, detached := Some h, callback := None,
                     trace := trace w
                       @ [Lock, LogMessage kWarning ''Couldn't get response from CentralController'',
                          RwFinish, Unlock, CallCancel cb]\<rparr>
           \<and> deliver nd req 0 False r st w = Inr w1
           \<and> (\<forall>evs' w2. exec nd req evs' w1 = Inr w2 \<longrightarrow>
                 take (length (trace w1)) (trace w2) = trace w1
                 \<and> RwRead \<notin> set (drop (length (trace w1)) (trace w2)))"
proof -
  from reachable_inv [OF assms(1,2)] assms(3) have "protocol_inv req cb w" by auto
  with assms(4) have s: "starting req cb w"
    by (auto simp: protocol_inv_def shape_defs startup_pending_def CallbackForAsyncCleanup_def)
  then obtain h ch where h: "rpc w = Some h" "rw h = Some ch" and c: "callback w = Some cb"
    by (auto simp: shape_defs split: option.splits)
  let ?w1 = "w\<lparr>queue := [(OpFinish, MakeFunction Holder_FinishSucceeded Holder_FinishFailed)],
                     rpc := None, detached := Some h, callback := None,
                     trace := trace w
                       @ [Lock, LogMessage kWarning ''Couldn't get response from CentralController'',
                          RwFinish, Unlock, CallCancel cb]\<rparr>"
  from s h c have d: "deliver nd req 0 False r st w = Inr ?w1"
    by (auto simp: shape_defs op_defs)
  have "no_read_since (trace ?w1) ?w1" by (simp add: no_read_since_def)
  then have "\<forall>evs' w2. exec nd req evs' ?w1 = Inr w2 \<longrightarrow> no_read_since (trace ?w1) w2"
    by (blast intro: no_read_since_exec)
  then have "\<forall>evs' w2. exec nd req evs' ?w1 = Inr w2 \<longrightarrow>
                 take (length (trace ?w1)) (trace w2) = trace ?w1
                 \<and> RwRead \<notin> set (drop (length (trace ?w1)) (trace w2))"
    unfolding no_read_since_def by blast
  with h d show ?thesis by blast
qed

theorem startup_failure_finishes_and_cancels_witness:
  "RequestResultRpcClient (Some 7) = Inr ex_constructed
   \<and> admissible True 5 ex_startup ex_constructed
   \<and> exec True 5 ex_startup ex_constructed = Inr ex_awaiting
   \<and> startup_pending ex_awaiting
   \<and> rpc ex_awaiting = Some \<lparr>rw = Some Channel, status = OK\<rparr>
   \<and> deliver True 5 0 False Clear OK ex_awaiting = Inr ex_failed
   \<and> detached ex_failed = Some \<lparr>rw = Some Channel, status = OK\<rparr>
   \<and> drop (length (trace ex_awaiting)) (trace ex_failed)
       = [Lock, LogMessage kWarning ''Couldn't get response from CentralController'',
          RwFinish, Unlock, CallCancel 7]
   \<and> exec True 5 [Ev_Complete 0 True Clear UNAVAILABLE, Ev_SendResultToServer 9] ex_failed
       = Inr (ex_failed\<lparr>queue := [], detached := None,
                trace := trace ex_failed
                  @ [LogMessage kWarning ''Received error status from CentralController: %d (%s)'',
                     DeleteHolder, Lock, Unlock]\<rparr>)
   \<and> RwRead \<notin> set [LogMessage kWarning ''Received error status from CentralController: %d (%s)'',
                     DeleteHolder, Lock, Unlock :: (nat, nat) action]"
proof -
  have p: "startup_pending ex_awaiting"
    by (simp add: startup_pending_def ex_awaiting_def)
  have r: "rpc ex_awaiting = Some \<lparr>rw = Some Channel, status = OK\<rparr>"
    by (simp add: ex_awaiting_def)
  have d: "deliver True 5 0 False Clear OK ex_awaiting = Inr ex_failed"
    by (simp add: ex_awaiting_def ex_failed_def ex_startup_trace_def Clear_def op_defs)
  have t: "detached ex_failed = Some \<lparr>rw = Some Channel, status = OK\<rparr>
           \<and> drop (length (trace ex_awaiting)) (trace ex_failed)
               = [Lock, LogMessage kWarning ''Couldn't get response from CentralController'',
                  RwFinish, Unlock, CallCancel 7]"
    by (simp add: ex_awaiting_def ex_failed_def ex_startup_trace_def)
  have e: "exec True 5 [Ev_Complete 0 True Clear UNAVAILABLE, Ev_SendResultToServer 9] ex_failed
       = Inr (ex_failed\<lparr>queue := [], detached := None,
                trace := trace ex_failed
                  @ [LogMessage kWarning ''Received error status from CentralController: %d (%s)'',
                     DeleteHolder, Lock, Unlock]\<rparr>)"
    by (simp add: ex_failed_def ex_startup_trace_def Clear_def op_defs severity_def)
  from startup_failure_finishes_and_cancels
         [OF ex_startup_run(1) ex_startup_run(3) ex_startup_run(2) p, of True Clear OK]
    ex_startup_run(1) ex_startup_run(3) [of True] ex_startup_run(2) [of True] p r d t e
  show ?thesis by simp
qed

text \<open>
  C8, as the code has it. One operation at a time, when the caller does its part. When
  the caller calls \<open>Start\<close> once and \<open>SendResultToServer\<close> only after the callback has
  run, then after every sequence of events the process has not aborted and at most one
  operation is outstanding: a completion handler runs after its operation has left the
  queue and leaves at most one behind; where the caller may call \<open>Start\<close> nothing is
  outstanding; and where the caller may call \<open>SendResultToServer\<close> either nothing is
  outstanding or the call issues nothing. The code does not enforce the caller's part:
  \<open>SendResultToServer\<close> issues its write whenever the holder is attached.
\<close>

theorem at_most_one_outstanding:
  assumes "RequestResultRpcClient (Some cb) = Inr w0"
    and "admissible nd req evs w0"
  shows "\<exists>w. exec nd req evs w0 = Inr w \<and> length (queue w) \<le> 1
           \<and> (allowed Ev_Start w \<longrightarrow> queue w = [])
           \<and> (\<forall>p. allowed (Ev_SendResultToServer p) w \<longrightarrow>
                 (\<exists>w'. SendResultToServer p w = Inr w'
                       \<and> (queue w = [] \<or> queue w' = queue w)))"
proof -
  from reachable_inv [OF assms] obtain w where e: "exec nd req evs w0 = Inr w"
    and i: "protocol_inv req cb w" by blast
  from i have l: "length (queue w) \<le> 1"
    by (auto simp: protocol_inv_def shape_defs)
  from i have s: "allowed Ev_Start w \<longrightarrow> queue w = []"
    by (auto simp: protocol_inv_def shape_defs)
  have r: "\<exists>w'. SendResultToServer p w = Inr w' \<and> (queue w = [] \<or> queue w' = queue w)"
    if "allowed (Ev_SendResultToServer p) w" for p
    using i that
    by (auto simp: protocol_inv_def shape_defs SendResultToServer_def emit_def issue_def
          split: option.splits)
  from e l s r show ?thesis by blast
qed

text \<open>The session with request 5: before \<open>Start\<close> and after the decision to proceed
  nothing is outstanding, and while the decision is awaited the read alone is.\<close>

theorem at_most_one_outstanding_witness:
  "RequestResultRpcClient (Some 7) = Inr ex_constructed
   \<and> admissible True 5 [] ex_constructed
   \<and> exec True 5 [] ex_constructed = Inr ex_constructed
   \<and> allowed Ev_Start ex_constructed
   \<and> queue ex_constructed = []
   \<and> admissible True 5 (ex_startup @ [Ev_Complete 0 True \<lparr>ok_to_proceed = True\<rparr> OK])
        ex_constructed
   \<and> exec True 5 (ex_startup @ [Ev_Complete 0 True \<lparr>ok_to_proceed = True\<rparr> OK])
        ex_constructed = Inr ex_granted
   \<and> allowed (Ev_SendResultToServer 9) ex_granted
   \<and> queue ex_granted = []
   \<and> admissible True 5 ex_startup ex_constructed
   \<and> exec True 5 ex_startup ex_constructed = Inr ex_awaiting
   \<and> length (queue ex_awaiting) \<le> 1"
proof -
  have a0: "admissible True 5 [] ex_constructed" by simp
  have s: "allowed Ev_Start ex_constructed" by (simp add: ex_constructed_def)
  have g: "allowed (Ev_SendResultToServer 9) ex_granted"
    by (simp add: ex_granted_def ex_startup_trace_def callbacks_def)
  have q: "queue ex_granted = []" by (simp add: ex_granted_def)
  from at_most_one_outstanding [OF ex_startup_run(1) a0] s
  have "queue ex_constructed = []" by simp
  moreover from at_most_one_outstanding [OF ex_startup_run(1) ex_startup_run(3), of True]
    ex_startup_run(2) [of True]
  have "length (queue ex_awaiting) \<le> 1" by simp
  ultimately show ?thesis
    using ex_startup_run(1) a0 s g q ex_grant_run(1) [of True] ex_grant_run(2) [of True]
      ex_startup_run(2) [of True] ex_startup_run(3) [of True]
      at_most_one_outstanding [OF ex_startup_run(1) ex_grant_run(2), of True]
    by simp
qed

text \<open>C8 as stated fails: when \<open>SendResultToServer\<close> is called while the decision read is
  outstanding, in a release build or in a debug build, the write is issued beside the
  read and two operations are outstanding.\<close>

theorem write_beside_read_counterexample:
  "exec True 5 (ex_startup @ [Ev_SendResultToServer 9]) ex_constructed = Inr ex_early_result
   \<and> exec False 5 (ex_startup @ [Ev_SendResultToServer 9]) ex_constructed = Inr ex_early_result
   \<and> queue ex_early_result
       = [(OpRead, MakeFunction Client_NotifyClientOfServerDecision Client_StartUpFailed),
          (OpWrite 9, MakeFunction Holder_Finish Holder_Error)]
   \<and> length (queue ex_early_result) = 2
   \<and> \<not> length (queue ex_early_result) \<le> 1"
  by (simp add: ex_constructed_def ex_startup_def ex_early_result_def ex_startup_trace_def
        Clear_def op_defs)

text \<open>
  C9. The callback pointer is not null. The constructor fails its \<open>CHECK\<close> on a null
  callback. A client that it returns holds the callback it was given, and along every run
  it holds that callback until the one invocation of it, which clears the pointer. When
  the caller calls \<open>Start\<close> once and \<open>SendResultToServer\<close> only after the callback has run,
  no sequence of events makes the process abort: no check fails and nothing is called
  through a null pointer, the callback pointer included.
\<close>

theorem callback_never_null:
  "RequestResultRpcClient None = (Inl CheckFailed :: fault + ('req, 'cb) world)
   \<and> (RequestResultRpcClient (Some cb) = Inr (w0 :: ('req, 'cb) world) \<longrightarrow>
        callback w0 = Some cb
        \<and> (\<forall>w. exec nd req evs w0 = Inr w \<longrightarrow>
               callback w = Some cb \<or> callback w = None \<and> callbacks (trace w) = 1)
        \<and> (admissible nd req evs w0 \<longrightarrow> (\<exists>w. exec nd req evs w0 = Inr w)))"
proof (intro conjI impI allI)
  show "RequestResultRpcClient None = (Inl CheckFailed :: fault + ('req, 'cb) world)"
    by (simp add: RequestResultRpcClient_def)
next
  assume c: "RequestResultRpcClient (Some cb) = Inr w0"
  then show "callback w0 = Some cb" by (auto simp: RequestResultRpcClient_def)
next
  fix w
  assume c: "RequestResultRpcClient (Some cb) = Inr w0" and e: "exec nd req evs w0 = Inr w"
  from reachable_gate [OF c e]
  show "callback w = Some cb \<or> callback w = None \<and> callbacks (trace w) = 1"
    by (auto simp: gate_def callbacks_def split: if_splits)
next
  assume c: "RequestResultRpcClient (Some cb) = Inr w0" and a: "admissible nd req evs w0"
  from reachable_inv [OF c a] show "\<exists>w. exec nd req evs w0 = Inr w" by blast
qed

theorem callback_never_null_witness:
  "RequestResultRpcClient None = (Inl CheckFailed :: fault + (nat, nat) world)
   \<and> RequestResultRpcClient (Some 7) = Inr ex_constructed
   \<and> callback ex_constructed = Some 7
   \<and> admissible True 5 ex_startup ex_constructed
   \<and> exec True 5 ex_startup ex_constructed = Inr ex_awaiting
   \<and> callback ex_awaiting = Some 7"
proof -
  have "callback ex_awaiting = Some 7"
    by (simp add: ex_constructed_def ex_startup_def ex_awaiting_def ex_startup_trace_def
          Clear_def)
  with callback_never_null [of 7 ex_constructed True 5 ex_startup]
    ex_startup_run(1) ex_startup_run(3) [of True] ex_startup_run(2) [of True]
  show ?thesis by simp
qed

text \<open>
  C10, as the code has it. \<open>SendResultToServer\<close> looks at the holder only. When \<open>rpc_\<close>
  holds a holder whose channel \<open>Start\<close> has set, the call detaches the holder and writes
  the payload with \<open>CallbackForAsyncCleanup\<close> as the tag, whatever the callback pointer,
  the response and the outstanding operations are: no decision need have arrived.
\<close>

theorem SendResultToServer_gated_on_holder:
  assumes "rpc w = Some h" and "rw h = Some ch"
  shows "SendResultToServer p w =
           Inr (w\<lparr>rpc := None, detached := Some h,
                  queue := queue w @ [(OpWrite p, CallbackForAsyncCleanup)],
                  trace := trace w @ [Lock, RwWrite p, Unlock]\<rparr>)"
  using assms by (simp add: SendResultToServer_def emit_def issue_def)

text \<open>The session whose decision read is outstanding: the callback has not been invoked,
  and the write is issued beside the read.\<close>

theorem SendResultToServer_gated_on_holder_witness:
  "rpc ex_awaiting = Some \<lparr>rw = Some Channel, status = OK\<rparr>
   \<and> rw \<lparr>rw = Some Channel, status = OK\<rparr> = Some Channel
   \<and> callback ex_awaiting = Some 7
   \<and> SendResultToServer 9 ex_awaiting =
       Inr (ex_awaiting\<lparr>rpc := None, detached := Some \<lparr>rw = Some Channel, status = OK\<rparr>,
              queue := [(OpRead, MakeFunction Client_NotifyClientOfServerDecision
                                   Client_StartUpFailed),
                        (OpWrite 9, MakeFunction Holder_Finish Holder_Error)],
              trace := trace ex_awaiting @ [Lock, RwWrite 9, Unlock]\<rparr>)"
proof -
  have a: "rpc ex_awaiting = Some \<lparr>rw = Some Channel, status = OK\<rparr>"
    by (simp add: ex_awaiting_def ex_startup_trace_def Clear_def)
  have b: "rw \<lparr>rw = Some Channel, status = OK\<rparr> = Some Channel" by simp
  have c: "callback ex_awaiting = Some 7"
    by (simp add: ex_awaiting_def ex_startup_trace_def Clear_def)
  have q: "queue ex_awaiting
             = [(OpRead, MakeFunction Client_NotifyClientOfServerDecision Client_StartUpFailed)]"
    by (simp add: ex_awaiting_def ex_startup_trace_def Clear_def)
  from SendResultToServer_gated_on_holder [OF a b, of 9] a b c q
  show ?thesis by (simp add: CallbackForAsyncCleanup_def)
qed

text \<open>C10 as stated fails before \<open>Start\<close>: the holder is attached, its channel is not set,
  and the call goes through the null \<open>rw_\<close>.\<close>

theorem SendResultToServer_before_Start_counterexample:
  "rpc ex_constructed = Some \<lparr>rw = None, status = OK\<rparr>
   \<and> SendResultToServer 9 ex_constructed = Inl NullDereference"
  by (simp add: ex_constructed_def Clear_def op_defs)

end
